theory Spec2Isabelle
  imports Main "HOL-Library.Word"
begin

unbundle bit_operations_syntax

section \<open>The hash accumulator\<close>

text \<open>
  The collectors of \<^verbatim>\<open>randomenv.cpp\<close> only ever append to a \<^verbatim>\<open>CSHA512\<close>.
  The accumulator is modelled by the sequence of absorptions made so far, in order.
  \<^verbatim>\<open>hasher.Write(p, n)\<close> on a byte buffer absorbs the \<open>n\<close> bytes found at \<open>p\<close>;
  \<^verbatim>\<open>hasher << v\<close> (and \<^verbatim>\<open>Write\<close> on the address of an object) absorbs the raw memory of
  the object \<open>v\<close>, which is kept as the typed value it represents.

  Each collector is modelled as it is compiled on a platform that has it
  (\<^verbatim>\<open>RandAddSeedPerfmon\<close> under \<^verbatim>\<open>WIN32\<close>, \<^verbatim>\<open>AddSysctl\<close> under \<^verbatim>\<open>HAVE_SYSCTL\<close>,
  \<^verbatim>\<open>AddAllCPUID\<close> under \<^verbatim>\<open>HAVE_GETCPUID\<close>, the others outside \<^verbatim>\<open>WIN32\<close>). What the
  operating system and the processor answer is a parameter of each function.
\<close>

type_synonym byte = "8 word"
type_synonym u32 = "32 word"
type_synonym size_t = "64 word"

datatype absorbed =
    Bytes "byte list"
  | Obj_int int
  | Obj_size_t nat
  | Obj_u32 u32
  | Obj_ints "int list"
  | Obj_stat "byte list"
  | Obj_ptr nat

type_synonym CSHA512 = "absorbed list"

definition Write :: "CSHA512 \<Rightarrow> absorbed \<Rightarrow> CSHA512" where
  "Write hasher x = hasher @ [x]"

text \<open>Memory behind a pointer: the byte at each offset.\<close>

type_synonym memory = "nat \<Rightarrow> byte"

definition bytes_at :: "memory \<Rightarrow> nat \<Rightarrow> nat \<Rightarrow> byte list" where
  "bytes_at mem off n = map mem [off..<off + n]"

text \<open>The content bytes absorbed through byte buffers, concatenated.\<close>

fun payload :: "CSHA512 \<Rightarrow> byte list" where
  "payload [] = []"
| "payload (Bytes bs # rest) = bs @ payload rest"
| "payload (_ # rest) = payload rest"

section \<open>RandAddSeedPerfmon\<close>

text \<open>
  \<^verbatim>\<open>RegQueryValueExA(HKEY_PERFORMANCE_DATA, "Global", ...)\<close> is the operating system's:
  its reply to the \<open>k\<close>-th query of a collection, made with a buffer of the given size,
  is a return code, the value stored in \<^verbatim>\<open>nSize\<close> and the contents of the buffer.
\<close>

definition ERROR_SUCCESS :: int where
  "ERROR_SUCCESS = 0"

definition ERROR_MORE_DATA :: int where
  "ERROR_MORE_DATA = 234"

definition nMaxSize :: nat where
  "nMaxSize = 10000000"

record reg_reply =
  reg_ret :: int
  reg_nSize :: nat
  reg_data :: memory

type_synonym reg_query = "nat \<Rightarrow> nat \<Rightarrow> reg_reply"

text \<open>
  The \<^verbatim>\<open>while (true)\<close> loop. It returns the reply of the last query and the buffer
  sizes of all the queries made, in order.
\<close>

function perfmon_loop :: "reg_query \<Rightarrow> nat \<Rightarrow> nat \<Rightarrow> reg_reply \<times> nat list" where
  "perfmon_loop RegQueryValueExA k vsize =
     (let r = RegQueryValueExA k vsize in
      if reg_ret r \<noteq> ERROR_MORE_DATA \<or> vsize \<ge> nMaxSize then (r, [vsize])
      else (case perfmon_loop RegQueryValueExA (Suc k) (max ((vsize * 3) div 2) nMaxSize) of
              (r', sizes) \<Rightarrow> (r', vsize # sizes)))"
  by pat_completeness auto
termination
  by (relation "measure (\<lambda>(q, k, vsize). nMaxSize - vsize)") auto

text \<open>
  \<^verbatim>\<open>std::chrono::seconds\<close> counts in a signed 64-bit integer: a time is a 64-bit word,
  read as two's complement by \<open>sint\<close>.
\<close>

type_synonym seconds = "64 word"

record perfmon_result =
  res_last_perfmon :: seconds
  res_hasher :: CSHA512
  res_queries :: "nat list"

text \<open>
  \<open>current_time\<close> is what \<^verbatim>\<open>GetTime<std::chrono::seconds>()\<close> returns, \<open>last_perfmon\<close> the
  value of the static atomic on entry; \<^verbatim>\<open>std::chrono::minutes{10}\<close> is 600 seconds. The
  sum \<^verbatim>\<open>last_time + std::chrono::minutes{10}\<close> is a 64-bit addition, which wraps around
  when it leaves the range, as the compiled code does; the comparison is signed. The
  result holds the static atomic and the accumulator on return, and the buffer sizes of
  the queries made.
\<close>

definition RandAddSeedPerfmon ::
  "reg_query \<Rightarrow> seconds \<Rightarrow> seconds \<Rightarrow> CSHA512 \<Rightarrow> perfmon_result" where
  "RandAddSeedPerfmon RegQueryValueExA current_time last_perfmon hasher =
     (let last_time = last_perfmon in
      if sint current_time < sint (last_time + 600) then
        \<lparr>res_last_perfmon = last_perfmon, res_hasher = hasher, res_queries = []\<rparr>
      else
        (case perfmon_loop RegQueryValueExA 0 250000 of
           (r, sizes) \<Rightarrow>
             \<lparr>res_last_perfmon = current_time,
              res_hasher =
                (if reg_ret r = ERROR_SUCCESS
                 then Write hasher (Bytes (bytes_at (reg_data r) 0 (reg_nSize r)))
                 else hasher),
              res_queries = sizes\<rparr>))"

text \<open>Whether a call performed the expensive collection.\<close>

definition collected :: "perfmon_result \<Rightarrow> bool" where
  "collected res = (res_queries res \<noteq> [])"

section \<open>The typed absorb operation\<close>

text \<open>
  The template \<^verbatim>\<open>operator<<(CSHA512&, const T&)\<close> carries four \<^verbatim>\<open>static_assert\<close>s on
  \<^verbatim>\<open>std::decay<T>::type\<close>. An object type carries the qualifier of what it points to or
  holds: \<^verbatim>\<open>const char *\<close> is \<open>Ptr Const Char\<close> and \<^verbatim>\<open>const char[6]\<close> is
  \<open>Array Const Char 6\<close>; \<^verbatim>\<open>uint8_t\<close> is \<^verbatim>\<open>unsigned char\<close>. A template argument may add a
  qualifier of its own and a reference: \<^verbatim>\<open>char *const\<close> is \<open>Q Const (Ptr Plain Char)\<close>,
  \<^verbatim>\<open>const char (&)[6]\<close> is \<open>Ref Plain (Array Const Char 6)\<close>.
\<close>

datatype cv = Plain | Const | Volatile | Const_Volatile

datatype cpp_type =
    Void
  | Char
  | UInt8
  | CInt
  | UInt32
  | SizeT
  | Struct string
  | Function
  | Ptr cv cpp_type
  | Array cv cpp_type nat

datatype qual_type = Q cv cpp_type | Ref cv cpp_type

fun add_cv :: "cv \<Rightarrow> cv \<Rightarrow> cv" where
  "add_cv Plain c = c"
| "add_cv c Plain = c"
| "add_cv Const Const = Const"
| "add_cv Volatile Volatile = Volatile"
| "add_cv c c' = Const_Volatile"

fun remove_reference :: "qual_type \<Rightarrow> cv \<times> cpp_type" where
  "remove_reference (Ref c t) = (c, t)"
| "remove_reference (Q c t) = (c, t)"

text \<open>
  \<^verbatim>\<open>std::decay\<close>: after the reference is removed, an array becomes a pointer to its
  element (a qualifier on an array is a qualifier on its elements), a function becomes
  a pointer to it, and any other type loses its top-level qualifier.
\<close>

definition decay :: "qual_type \<Rightarrow> cpp_type" where
  "decay T =
     (case remove_reference T of
        (c, Array ec e n) \<Rightarrow> Ptr (add_cv c ec) e
      | (c, Function) \<Rightarrow> Ptr Plain Function
      | (c, u) \<Rightarrow> u)"

fun is_pointer :: "cpp_type \<Rightarrow> bool" where
  "is_pointer (Ptr c t) = True"
| "is_pointer t = False"

text \<open>The four assertions, in the order of the source.\<close>

definition static_asserts :: "qual_type \<Rightarrow> bool" where
  "static_asserts T =
     (decay T \<noteq> Ptr Plain Char \<and> decay T \<noteq> Ptr Plain UInt8 \<and>
      decay T \<noteq> Ptr Const Char \<and> decay T \<noteq> Ptr Const UInt8)"

text \<open>
  The objects that can be passed: each has a type and a raw memory. A pointer holds an
  address, and the address is its raw memory; an array's raw memory is its elements.
\<close>

datatype cpp_value =
    Int_val int
  | Size_val nat
  | U32_val u32
  | Stat_val "byte list"
  | Ptr_val cv cpp_type nat
  | Char_array cv "byte list"
  | UInt8_array cv "byte list"

fun type_of_value :: "cpp_value \<Rightarrow> cpp_type" where
  "type_of_value (Int_val i) = CInt"
| "type_of_value (Size_val n) = SizeT"
| "type_of_value (U32_val w) = UInt32"
| "type_of_value (Stat_val sb) = Struct ''stat''"
| "type_of_value (Ptr_val c t address) = Ptr c t"
| "type_of_value (Char_array c bs) = Array c Char (length bs)"
| "type_of_value (UInt8_array c bs) = Array c UInt8 (length bs)"

fun raw_memory :: "cpp_value \<Rightarrow> absorbed" where
  "raw_memory (Int_val i) = Obj_int i"
| "raw_memory (Size_val n) = Obj_size_t n"
| "raw_memory (U32_val w) = Obj_u32 w"
| "raw_memory (Stat_val sb) = Obj_stat sb"
| "raw_memory (Ptr_val c t address) = Obj_ptr address"
| "raw_memory (Char_array c bs) = Bytes bs"
| "raw_memory (UInt8_array c bs) = Bytes bs"

text \<open>
  \<^verbatim>\<open>hasher << data\<close>: \<open>T\<close> is deduced from the argument bound to \<^verbatim>\<open>const T &\<close>, so it is
  the argument's type without a qualifier of its own. \<open>None\<close> is a failed assertion:
  the call does not compile. Otherwise \<^verbatim>\<open>sizeof(data)\<close> bytes at \<^verbatim>\<open>&data\<close> are written,
  the raw memory of the object.
\<close>

definition shift_in :: "CSHA512 \<Rightarrow> cpp_value \<Rightarrow> CSHA512 option" where
  "shift_in hasher data =
     (if static_asserts (Q Plain (type_of_value data))
      then Some (Write hasher (raw_memory data))
      else None)"

section \<open>AddSockaddr\<close>

text \<open>
  The address family constants and structure sizes come from the platform's headers
  and are parameters. A socket address is the value of its \<^verbatim>\<open>sa_family\<close> field and
  the memory it points to; \<open>None\<close> is the null pointer.
\<close>

record socket_abi =
  AF_INET :: "16 word"
  AF_INET6 :: "16 word"
  sizeof_sockaddr_in :: nat
  sizeof_sockaddr_in6 :: nat
  offsetof_sa_family :: nat
  sizeof_sa_family :: nat

record sockaddr =
  sa_family :: "16 word"
  sa_memory :: memory

definition AddSockaddr :: "socket_abi \<Rightarrow> CSHA512 \<Rightarrow> sockaddr option \<Rightarrow> CSHA512" where
  "AddSockaddr abi hasher addr =
     (case addr of
        None \<Rightarrow> hasher
      | Some a \<Rightarrow>
          if sa_family a = AF_INET abi then
            Write hasher (Bytes (bytes_at (sa_memory a) 0 (sizeof_sockaddr_in abi)))
          else if sa_family a = AF_INET6 abi then
            Write hasher (Bytes (bytes_at (sa_memory a) 0 (sizeof_sockaddr_in6 abi)))
          else
            Write hasher (Bytes (bytes_at (sa_memory a) (offsetof_sa_family abi)
                                   (sizeof_sa_family abi))))"

section \<open>AddFile\<close>

text \<open>
  The file system is the environment's. For the \<open>k\<close>-th \<^verbatim>\<open>read\<close> on the descriptor the
  oracle says \<open>None\<close> (the call fails and returns \<open>-1\<close>) or the bytes that are
  available; \<^verbatim>\<open>read(f, fbuf, count)\<close> stores at most \<open>count\<close> of them and returns how many.
\<close>

type_synonym read_oracle = "nat \<Rightarrow> byte list option"

definition posix_read :: "read_oracle \<Rightarrow> nat \<Rightarrow> nat \<Rightarrow> int \<times> byte list" where
  "posix_read rd k count =
     (case rd k of
        None \<Rightarrow> (- 1, [])
      | Some bs \<Rightarrow> (int (length (take count bs)), take count bs))"

text \<open>
  The \<^verbatim>\<open>do ... while\<close> loop; \<open>ftotal\<close> is the \<^verbatim>\<open>size_t\<close> variable \<^verbatim>\<open>total\<close>, to which the \<^verbatim>\<open>int\<close> \<open>n\<close> is
  added after conversion, so that \<open>-1\<close> wraps around.
\<close>

function AddFile_loop :: "read_oracle \<Rightarrow> nat \<Rightarrow> size_t \<Rightarrow> CSHA512 \<Rightarrow> CSHA512" where
  "AddFile_loop rd k ftotal hasher =
     (case posix_read rd k 4096 of
        (n, fbuf) \<Rightarrow>
          (let hasher' = (if n > 0 then Write hasher (Bytes (take (nat n) fbuf)) else hasher);
               ftotal' = ftotal + word_of_int n
           in if n = 4096 \<and> ftotal' < 1048576
              then AddFile_loop rd (Suc k) ftotal' hasher'
              else hasher'))"
  by pat_completeness auto
termination
proof (relation "measure (\<lambda>(rd, k, ftotal, hasher). unat (1048576 - ftotal))")
  show "wf (measure (\<lambda>(rd, k, ftotal, hasher). unat (1048576 - ftotal :: size_t)))"
    by simp
next
  fix rd :: read_oracle and k :: nat and ftotal :: size_t and hasher :: CSHA512
    and x :: "int \<times> byte list" and n :: int and fbuf :: "byte list"
    and hasher' :: CSHA512 and ftotal' :: size_t
  assume t: "ftotal' = ftotal + word_of_int n" and c: "n = 4096 \<and> ftotal' < 1048576"
  from t c have lt: "ftotal + 4096 < 1048576" by simp
  define a where "a = unat ftotal"
  define b where "b = unat (ftotal + 4096)"
  have a: "a < 18446744073709551616"
    using unsigned_less [of ftotal, where 'a = nat] by (simp add: a_def)
  have b: "b = (if a + 4096 < 18446744073709551616 then a + 4096
                else a + 4096 - 18446744073709551616)"
    unfolding a_def b_def by (simp add: unat_plus_if_size word_size)
  have u: "unat (1048576 - ftotal) =
             (if a \<le> 1048576 then 1048576 - a else 1048576 + 18446744073709551616 - a)"
    by (simp add: unat_sub_if_size word_size a_def word_le_nat_alt)
  have b_lt: "b < 1048576"
    using lt by (simp add: word_less_nat_alt b_def)
  have "ftotal + 4096 \<le> 1048576"
    using lt by simp
  from unat_sub [OF this] have v: "unat (1048576 - (ftotal + 4096)) = 1048576 - b"
    by (simp only: b_def unat_numeral) simp
  have "unat (1048576 - (ftotal + 4096)) < unat (1048576 - ftotal)"
    unfolding u v using b_lt a b by (simp split: if_splits)
  with t c show "((rd, Suc k, ftotal', hasher'), (rd, k, ftotal, hasher))
      \<in> measure (\<lambda>(rd, k, ftotal, hasher). unat (1048576 - ftotal))"
    by simp
qed

text \<open>What \<^verbatim>\<open>open\<close>, \<^verbatim>\<open>fstat\<close> and \<^verbatim>\<open>read\<close> answer for a path.\<close>

record file_env =
  open_fd :: int
  fstat_result :: "byte list option"
  reads :: read_oracle

definition AddFile :: "(string \<Rightarrow> file_env) \<Rightarrow> CSHA512 \<Rightarrow> string \<Rightarrow> CSHA512" where
  "AddFile os hasher path =
     (let f = open_fd (os path) in
      if f \<noteq> - 1 then
        (let h1 = Write hasher (Obj_int f);
             h2 = (case fstat_result (os path) of
                     Some sb \<Rightarrow> Write h1 (Obj_stat sb)
                   | None \<Rightarrow> h1)
         in AddFile_loop (reads (os path)) 0 0 h2)
      else hasher)"

text \<open>A file whose every \<^verbatim>\<open>read\<close> returns as much as was asked for, until its end.\<close>

definition file_reads :: "byte list \<Rightarrow> read_oracle" where
  "file_reads content k = Some (drop (4096 * k) content)"

section \<open>AddPath\<close>

text \<open>A C string in memory: its characters and the terminating NUL.\<close>

definition c_str :: "string \<Rightarrow> byte list" where
  "c_str s = map of_char s @ [0]"

text \<open>\<open>stat\<close> answers \<open>None\<close> when the call fails, otherwise the \<^verbatim>\<open>struct stat\<close>.\<close>

definition AddPath :: "(string \<Rightarrow> byte list option) \<Rightarrow> CSHA512 \<Rightarrow> string \<Rightarrow> CSHA512" where
  "AddPath stat hasher path =
     (case stat path of
        Some sb \<Rightarrow> Write (Write hasher (Bytes (c_str path))) (Obj_stat sb)
      | None \<Rightarrow> hasher)"

section \<open>AddSysctl\<close>

definition ENOMEM :: int where
  "ENOMEM = 12"

definition sizeof_int :: nat where
  "sizeof_int = 4"

record sysctl_reply =
  sys_ret :: int
  sys_errno :: int
  sys_siz :: nat
  sys_buffer :: memory

text \<open>
  \<open>S\<close> is the template's parameter pack. \<^verbatim>\<open>sysctl\<close> receives the name and the size of
  the buffer and answers with its return value, \<^verbatim>\<open>errno\<close>, the size it stored in
  \<^verbatim>\<open>siz\<close> and the contents of the buffer.
\<close>

definition AddSysctl :: "(int list \<Rightarrow> nat \<Rightarrow> sysctl_reply) \<Rightarrow> int list \<Rightarrow> CSHA512 \<Rightarrow> CSHA512" where
  "AddSysctl sysctl S hasher =
     (let CTL = S;
          r = sysctl CTL 65536;
          ret = sys_ret r
      in if ret = 0 \<or> (ret = - 1 \<and> sys_errno r = ENOMEM) then
           (let h1 = Write hasher (Obj_size_t (sizeof_int * length CTL));
                h2 = Write h1 (Obj_ints CTL);
                siz = (if sys_siz r > 65536 then 65536 else sys_siz r);
                h3 = Write h2 (Obj_size_t siz)
            in Write h3 (Bytes (bytes_at (sys_buffer r) 0 siz)))
         else hasher)"

section \<open>AddAllCPUID\<close>

text \<open>\<^verbatim>\<open>GetCPUID\<close> is the processor's: registers \<open>(ax, bx, cx, dx)\<close> for a leaf and a
  sub-leaf.\<close>

type_synonym cpuid = "u32 \<Rightarrow> u32 \<Rightarrow> u32 \<times> u32 \<times> u32 \<times> u32"

definition AddCPUID :: "cpuid \<Rightarrow> CSHA512 \<Rightarrow> u32 \<Rightarrow> u32 \<Rightarrow> CSHA512 \<times> (u32 \<times> u32 \<times> u32 \<times> u32)" where
  "AddCPUID GetCPUID hasher leaf subleaf =
     (case GetCPUID leaf subleaf of
        (ax, bx, cx, dx) \<Rightarrow>
          (hasher @ [Obj_u32 leaf, Obj_u32 subleaf, Obj_u32 ax, Obj_u32 bx, Obj_u32 cx,
                     Obj_u32 dx],
           (ax, bx, cx, dx)))"

text \<open>
  The loops are written with unsigned 32-bit counters and no bound of their own, so
  each is a partial function: \<open>None\<close> is a loop that never ends.
\<close>

partial_function (option) subleaf_loop :: "cpuid \<Rightarrow> u32 \<Rightarrow> u32 \<Rightarrow> CSHA512 \<Rightarrow> CSHA512 option" where
  "subleaf_loop GetCPUID leaf subleaf hasher =
     (case AddCPUID GetCPUID hasher leaf subleaf of
        (hasher', (ax, bx, cx, dx)) \<Rightarrow>
          if leaf \<noteq> 4 \<and> leaf \<noteq> 11 \<and> leaf \<noteq> 13 then Some hasher'
          else if (leaf = 4 \<or> leaf = 13) \<and> ax = 0 then Some hasher'
          else if leaf = 11 \<and> (cx AND 0xFF00) = 0 then Some hasher'
          else subleaf_loop GetCPUID leaf (subleaf + 1) hasher')"

partial_function (option) leaf_loop :: "cpuid \<Rightarrow> u32 \<Rightarrow> u32 \<Rightarrow> CSHA512 \<Rightarrow> CSHA512 option" where
  "leaf_loop GetCPUID max_leaf leaf hasher =
     (if leaf \<le> max_leaf then
        Option.bind (subleaf_loop GetCPUID leaf 0 hasher)
          (\<lambda>hasher'. leaf_loop GetCPUID max_leaf (leaf + 1) hasher')
      else Some hasher)"

partial_function (option) ext_loop :: "cpuid \<Rightarrow> u32 \<Rightarrow> u32 \<Rightarrow> CSHA512 \<Rightarrow> CSHA512 option" where
  "ext_loop GetCPUID ext_max leaf hasher =
     (if leaf \<le> ext_max then
        ext_loop GetCPUID ext_max (leaf + 1) (fst (AddCPUID GetCPUID hasher leaf 0))
      else Some hasher)"

definition AddAllCPUID :: "cpuid \<Rightarrow> CSHA512 \<Rightarrow> CSHA512 option" where
  "AddAllCPUID GetCPUID hasher =
     (case AddCPUID GetCPUID hasher 0 0 of
        (h0, (ax, bx, cx, dx)) \<Rightarrow>
          Option.bind (leaf_loop GetCPUID ax 1 h0)
            (\<lambda>h1. case AddCPUID GetCPUID h1 0x80000000 0 of
                     (h2, (ax', bx', cx', dx')) \<Rightarrow> ext_loop GetCPUID ax' 0x80000001 h2))"

text \<open>The condition under which the sub-leaf loop leaves at a sub-leaf.\<close>

definition subleaf_stops :: "cpuid \<Rightarrow> u32 \<Rightarrow> u32 \<Rightarrow> bool" where
  "subleaf_stops GetCPUID leaf subleaf =
     (case GetCPUID leaf subleaf of
        (ax, bx, cx, dx) \<Rightarrow>
          (leaf \<noteq> 4 \<and> leaf \<noteq> 11 \<and> leaf \<noteq> 13) \<or>
          ((leaf = 4 \<or> leaf = 13) \<and> ax = 0) \<or>
          (leaf = 11 \<and> (cx AND 0xFF00) = 0))"

section \<open>The environment table in RandAddStaticEnv\<close>

text \<open>
  \<^verbatim>\<open>environ\<close> is a pointer (\<open>None\<close> when null) to an array of pointers to C strings
  that ends with a null pointer. An entry is the memory from its pointer on;
  \<^verbatim>\<open>strlen\<close> counts the bytes before the first NUL.
\<close>

definition strlen :: "byte list \<Rightarrow> nat" where
  "strlen s = length (takeWhile (\<lambda>b. b \<noteq> 0) s)"

fun environ_loop :: "byte list option list \<Rightarrow> CSHA512 \<Rightarrow> CSHA512" where
  "environ_loop [] hasher = hasher"
| "environ_loop (None # rest) hasher = hasher"
| "environ_loop (Some s # rest) hasher =
     environ_loop rest (Write hasher (Bytes (take (strlen s) s)))"

definition add_environ :: "byte list option list option \<Rightarrow> CSHA512 \<Rightarrow> CSHA512" where
  "add_environ environ hasher =
     (case environ of
        None \<Rightarrow> hasher
      | Some table \<Rightarrow> environ_loop table hasher)"

section \<open>Sample environments\<close>

text \<open>Concrete environments on which the theorems below are instantiated.\<close>

definition ready_registry :: reg_query where
  "ready_registry k vsize = \<lparr>reg_ret = ERROR_SUCCESS, reg_nSize = 3, reg_data = (\<lambda>i. of_nat i)\<rparr>"

definition denied_registry :: reg_query where
  "denied_registry k vsize = \<lparr>reg_ret = 5, reg_nSize = 0, reg_data = (\<lambda>i. 0)\<rparr>"

definition huge_registry :: reg_query where
  "huge_registry k vsize =
     \<lparr>reg_ret = ERROR_MORE_DATA, reg_nSize = 2 * vsize, reg_data = (\<lambda>i. 7)\<rparr>"

definition linux_abi :: socket_abi where
  "linux_abi = \<lparr>AF_INET = 2, AF_INET6 = 10, sizeof_sockaddr_in = 16,
                  sizeof_sockaddr_in6 = 28, offsetof_sa_family = 0, sizeof_sa_family = 2\<rparr>"

definition unix_socket :: sockaddr where
  "unix_socket = \<lparr>sa_family = 1, sa_memory = (\<lambda>i. of_nat (i + 1))\<rparr>"

definition tmp_only :: "string \<Rightarrow> byte list option" where
  "tmp_only path = (if path = ''/tmp'' then Some [1, 2] else None)"

definition sample_fs :: "string \<Rightarrow> file_env" where
  "sample_fs path =
     (if path = ''/proc/zoneinfo'' then
        \<lparr>open_fd = 3, fstat_result = None, reads = file_reads (replicate 5242880 7)\<rparr>
      else if path = ''/etc/hosts'' then
        \<lparr>open_fd = 3, fstat_result = Some [9], reads = file_reads [1, 2, 3]\<rparr>
      else \<lparr>open_fd = - 1, fstat_result = None, reads = (\<lambda>k. None)\<rparr>)"

definition sample_cpuid :: cpuid where
  "sample_cpuid leaf subleaf =
     (if leaf = 0 then (13, 0, 0, 0)
      else if leaf = 4 then (if subleaf < 3 then 1 else 0, 0, 0, 0)
      else if leaf = 11 then (1, 2, if subleaf < 2 then 0x100 + subleaf else subleaf, 0)
      else if leaf = 13 then (if subleaf < 2 then 7 else 0, 0, 0, 0)
      else if leaf = 0x80000000 then (0x80000004, 0, 0, 0)
      else (0, 0, 0, 0))"

definition endless_cpuid :: cpuid where
  "endless_cpuid leaf subleaf =
     (if leaf = 0 then (11, 0, 0, 0)
      else if leaf = 11 then (1, 2, 0x100, 0)
      else (0, 0, 0, 0))"

definition truncating_sysctl :: "int list \<Rightarrow> nat \<Rightarrow> sysctl_reply" where
  "truncating_sysctl name len =
     (if name = [1, 14] then
        \<lparr>sys_ret = - 1, sys_errno = ENOMEM, sys_siz = 3, sys_buffer = (\<lambda>i. of_nat i)\<rparr>
      else \<lparr>sys_ret = - 1, sys_errno = 2, sys_siz = 0, sys_buffer = (\<lambda>i. 0)\<rparr>)"

section \<open>Basic facts about the accumulator\<close>

lemma length_bytes_at: "length (bytes_at mem off n) = n"
  by (simp add: bytes_at_def)

lemma payload_append: "payload (xs @ ys) = payload xs @ payload ys"
  by (induction xs rule: payload.induct) simp_all

lemma payload_map_Bytes: "payload (map Bytes es) = concat es"
  by (induction es) simp_all

section \<open>AddPath: a path that does not resolve contributes nothing\<close>

text \<open>
  Claim C6. When \<^verbatim>\<open>stat\<close> fails for the path, \<open>AddPath\<close> leaves the accumulator as it
  was; the function is total, so it returns normally and has no error to raise. When
  \<^verbatim>\<open>stat\<close> succeeds, it absorbs the path string (with its terminating NUL) and then the
  \<^verbatim>\<open>struct stat\<close>, in this order.
\<close>

theorem AddPath_absent_is_noop:
  "(stat path = None \<longrightarrow> AddPath stat hasher path = hasher) \<and>
   (\<forall>sb. stat path = Some sb \<longrightarrow>
      AddPath stat hasher path = hasher @ [Bytes (map of_char path @ [0]), Obj_stat sb])"
  by (simp add: AddPath_def Write_def c_str_def)

theorem AddPath_absent_is_noop_witness:
  "tmp_only ''/proc'' = None \<and> AddPath tmp_only [] ''/proc'' = [] \<and>
   tmp_only ''/tmp'' = Some [1, 2] \<and>
   AddPath tmp_only [] ''/tmp'' = [Bytes [47, 116, 109, 112, 0], Obj_stat [1, 2]]"
  using AddPath_absent_is_noop [of tmp_only "''/proc''" "[]"]
    AddPath_absent_is_noop [of tmp_only "''/tmp''" "[]"]
  by (simp add: tmp_only_def)

section \<open>AddSockaddr: the width depends on the family alone\<close>

text \<open>
  Claim C8. For a non-null socket address, \<open>AddSockaddr\<close> absorbs exactly
  \<^verbatim>\<open>sizeof(sockaddr_in)\<close> bytes of the structure when the family is \<^verbatim>\<open>AF_INET\<close>, exactly
  \<^verbatim>\<open>sizeof(sockaddr_in6)\<close> bytes when it is \<^verbatim>\<open>AF_INET6\<close>, and for every other family only
  the bytes of the \<^verbatim>\<open>sa_family\<close> field. The two case labels of the \<^verbatim>\<open>switch\<close> are
  distinct constants, as C++ requires.
\<close>

theorem AddSockaddr_width_by_family:
  assumes "AF_INET abi \<noteq> AF_INET6 abi"
  shows "(sa_family a = AF_INET abi \<longrightarrow>
            AddSockaddr abi hasher (Some a) =
              hasher @ [Bytes (bytes_at (sa_memory a) 0 (sizeof_sockaddr_in abi))] \<and>
            length (payload (AddSockaddr abi [] (Some a))) = sizeof_sockaddr_in abi) \<and>
         (sa_family a = AF_INET6 abi \<longrightarrow>
            AddSockaddr abi hasher (Some a) =
              hasher @ [Bytes (bytes_at (sa_memory a) 0 (sizeof_sockaddr_in6 abi))] \<and>
            length (payload (AddSockaddr abi [] (Some a))) = sizeof_sockaddr_in6 abi) \<and>
         (sa_family a \<noteq> AF_INET abi \<and> sa_family a \<noteq> AF_INET6 abi \<longrightarrow>
            AddSockaddr abi hasher (Some a) =
              hasher @ [Bytes (bytes_at (sa_memory a) (offsetof_sa_family abi)
                                 (sizeof_sa_family abi))] \<and>
            length (payload (AddSockaddr abi [] (Some a))) = sizeof_sa_family abi)"
  using assms by (simp add: AddSockaddr_def Write_def length_bytes_at)

theorem AddSockaddr_width_by_family_witness:
  "AF_INET linux_abi \<noteq> AF_INET6 linux_abi \<and>
   sa_family unix_socket \<noteq> AF_INET linux_abi \<and> sa_family unix_socket \<noteq> AF_INET6 linux_abi \<and>
   AddSockaddr linux_abi [] (Some unix_socket) = [Bytes [1, 2]] \<and>
   AddSockaddr linux_abi [] (Some (unix_socket\<lparr>sa_family := 2\<rparr>)) =
     [Bytes [1, 2, 3, 4, 5, 6, 7, 8, 9, 10, 11, 12, 13, 14, 15, 16]] \<and>
   length (payload (AddSockaddr linux_abi [] (Some (unix_socket\<lparr>sa_family := 10\<rparr>)))) = 28"
  using AddSockaddr_width_by_family [of linux_abi unix_socket "[]"]
    AddSockaddr_width_by_family [of linux_abi "unix_socket\<lparr>sa_family := 2\<rparr>" "[]"]
    AddSockaddr_width_by_family [of linux_abi "unix_socket\<lparr>sa_family := 10\<rparr>" "[]"]
  by (simp add: linux_abi_def unix_socket_def bytes_at_def upt_rec)

section \<open>AddSysctl: a truncated result still contributes\<close>

text \<open>
  Claim C10. \<open>AddSysctl\<close> absorbs something exactly when \<^verbatim>\<open>sysctl\<close> returns 0 or returns
  \<open>-1\<close> with \<^verbatim>\<open>errno == ENOMEM\<close>: then it absorbs \<^verbatim>\<open>sizeof(CTL)\<close>, the name \<^verbatim>\<open>CTL\<close>, the
  reported size clamped to 65536 and that many bytes of the buffer. On every other
  failure it absorbs nothing. The result data absorbed is never longer than 65536
  bytes.
\<close>

theorem AddSysctl_clamped:
  "AddSysctl sysctl S hasher =
     (if sys_ret (sysctl S 65536) = 0 \<or>
         (sys_ret (sysctl S 65536) = - 1 \<and> sys_errno (sysctl S 65536) = ENOMEM)
      then hasher @ [Obj_size_t (sizeof_int * length S), Obj_ints S,
                     Obj_size_t (min (sys_siz (sysctl S 65536)) 65536),
                     Bytes (bytes_at (sys_buffer (sysctl S 65536)) 0
                              (min (sys_siz (sysctl S 65536)) 65536))]
      else hasher) \<and>
   length (payload (AddSysctl sysctl S [])) \<le> 65536"
  by (simp add: AddSysctl_def Write_def Let_def length_bytes_at min_def)

theorem AddSysctl_clamped_witness:
  "AddSysctl truncating_sysctl [1, 14] [] =
     [Obj_size_t 8, Obj_ints [1, 14], Obj_size_t 3, Bytes [0, 1, 2]] \<and>
   AddSysctl truncating_sysctl [6, 3] [] = []"
  using AddSysctl_clamped [of truncating_sysctl "[1, 14]" "[]"]
    AddSysctl_clamped [of truncating_sysctl "[6, 3]" "[]"]
  by (simp add: truncating_sysctl_def ENOMEM_def sizeof_int_def bytes_at_def upt_rec)

section \<open>The environment table is absorbed entry by entry\<close>

lemma strlen_c_string: "0 \<notin> set e \<Longrightarrow> take (strlen (e @ 0 # junk)) (e @ 0 # junk) = e"
  unfolding strlen_def by (induction e) auto

lemma environ_loop_entries:
  "\<forall>e \<in> set es. 0 \<notin> set e \<Longrightarrow>
   environ_loop (map (\<lambda>e. Some (e @ [0])) es @ None # beyond) hasher = hasher @ map Bytes es"
proof (induction es arbitrary: hasher)
  case Nil
  then show ?case by simp
next
  case (Cons e es)
  then show ?case using strlen_c_string [of e "[]"] by (simp add: Write_def)
qed

text \<open>
  Claim C9. When the table holds the entries \<open>es\<close> (each a NUL-free \<^verbatim>\<open>NAME=value\<close>
  string, stored with its terminating NUL) followed by the null pointer, the loop
  absorbs exactly the entries' bytes, one absorption per entry, in the order of the
  table; the bytes that reach the hash are the plain concatenation of the entries, with
  no terminator or separator.
\<close>

theorem environ_entries_raw_in_order:
  assumes "\<forall>e \<in> set es. 0 \<notin> set e"
  shows "add_environ (Some (map (\<lambda>e. Some (e @ [0])) es @ [None])) hasher = hasher @ map Bytes es \<and>
         payload (add_environ (Some (map (\<lambda>e. Some (e @ [0])) es @ [None])) []) = concat es"
  using environ_loop_entries [OF assms, of "[]"]
  by (simp add: add_environ_def payload_map_Bytes)

theorem environ_entries_raw_in_order_witness:
  "add_environ (Some [Some [90, 61, 49, 0], Some [65, 61, 0], None]) [] =
     [Bytes [90, 61, 49], Bytes [65, 61]] \<and>
   payload (add_environ (Some [Some [90, 61, 49, 0], Some [65, 61, 0], None]) []) =
     [90, 61, 49, 65, 61]"
  using environ_entries_raw_in_order [of "[[90, 61, 49], [65, 61]]" "[]"]
  by simp

section \<open>RandAddSeedPerfmon: the cooldown and the query loop\<close>

declare perfmon_loop.simps [simp del]

lemma perfmon_loop_from_start:
  "perfmon_loop q 0 250000 =
     (if reg_ret (q 0 250000) \<noteq> ERROR_MORE_DATA then (q 0 250000, [250000])
      else (q 1 10000000, [250000, 10000000]))"
  apply (subst perfmon_loop.simps)
  apply (subst perfmon_loop.simps)
  apply (simp add: nMaxSize_def Let_def)
  done

lemma perfmon_loop_queries_nonempty: "snd (perfmon_loop q 0 250000) \<noteq> []"
  by (simp add: perfmon_loop_from_start)

lemma sint_add_in_range:
  fixes x y :: seconds
  assumes "0 \<le> sint y" and "sint x + sint y \<le> 9223372036854775807"
  shows "sint (x + y) = sint x + sint y"
proof -
  have lo: "- (2 ^ 63) \<le> sint x + sint y"
    using sint_ge [of x] assms(1) by simp
  have hi: "sint x + sint y < 2 ^ 63"
    using assms(2) by simp
  have "sint (x + y) = signed_take_bit (LENGTH(64) - 1) (sint x + sint y)"
    by (rule sint_word_ariths)
  also have "\<dots> = sint x + sint y"
    using lo hi by (simp add: signed_take_bit_int_eq_self)
  finally show ?thesis .
qed

lemma deadline_in_range:
  "sint (last_time :: seconds) + 600 \<le> 9223372036854775807 \<Longrightarrow>
   sint (last_time + 600) = sint last_time + 600"
  using sint_add_in_range [of 600 last_time] by simp

lemma collected_iff_due:
  "collected (RandAddSeedPerfmon q current_time last_perfmon hasher) =
     (sint (last_perfmon + 600) \<le> sint current_time)"
  using perfmon_loop_queries_nonempty [of q]
  by (auto simp: RandAddSeedPerfmon_def collected_def Let_def split: prod.splits)

lemma last_perfmon_after:
  "res_last_perfmon (RandAddSeedPerfmon q current_time last_perfmon hasher) =
     (if sint current_time < sint (last_perfmon + 600) then last_perfmon else current_time)"
  by (simp add: RandAddSeedPerfmon_def Let_def split: prod.splits)

text \<open>
  Outside the range the sum wraps: with the stored time 100 seconds below the largest
  64-bit time and the clock at the largest time, the deadline is negative and the call
  collects.
\<close>

lemma deadline_wraps_around:
  "sint (9223372036854775707 + 600 :: seconds) < 0 \<and>
   collected (RandAddSeedPerfmon ready_registry 9223372036854775807 9223372036854775707 []) \<and>
   res_last_perfmon (RandAddSeedPerfmon ready_registry 9223372036854775807
     9223372036854775707 []) = 9223372036854775807"
  by (simp add: collected_iff_due last_perfmon_after)

text \<open>
  Claim C1, as amended. As long as the stored time plus 600 seconds is within the range
  of the 64-bit counter, a call whose time is strictly below the stored time plus 600
  seconds returns the stored time and the accumulator untouched and makes no query.
  When a first call is itself due (its time is at least the stored time plus 600
  seconds), and the later times are within the range, it performs the collection; a
  second call 300 seconds later performs none and writes nothing, so the collection
  runs once; a second call 660 seconds later performs it again, so it runs twice.
\<close>

theorem perfmon_cooldown:
  "(sint last_perfmon + 600 \<le> 9223372036854775807 \<and>
    sint current_time < sint last_perfmon + 600 \<longrightarrow>
      RandAddSeedPerfmon q current_time last_perfmon hasher =
        \<lparr>res_last_perfmon = last_perfmon, res_hasher = hasher, res_queries = []\<rparr>) \<and>
   (sint last_perfmon + 600 \<le> sint t \<and> sint t + 660 \<le> 9223372036854775807 \<longrightarrow>
      collected (RandAddSeedPerfmon q t last_perfmon hasher) \<and>
      \<not> collected (RandAddSeedPerfmon q' (t + 300)
          (res_last_perfmon (RandAddSeedPerfmon q t last_perfmon hasher))
          (res_hasher (RandAddSeedPerfmon q t last_perfmon hasher))) \<and>
      res_hasher (RandAddSeedPerfmon q' (t + 300)
          (res_last_perfmon (RandAddSeedPerfmon q t last_perfmon hasher))
          (res_hasher (RandAddSeedPerfmon q t last_perfmon hasher))) =
        res_hasher (RandAddSeedPerfmon q t last_perfmon hasher) \<and>
      collected (RandAddSeedPerfmon q' (t + 660)
          (res_last_perfmon (RandAddSeedPerfmon q t last_perfmon hasher))
          (res_hasher (RandAddSeedPerfmon q t last_perfmon hasher))))"
proof (intro conjI impI)
  assume a: "sint last_perfmon + 600 \<le> 9223372036854775807 \<and>
    sint current_time < sint last_perfmon + 600"
  then have "sint current_time < sint (last_perfmon + 600)"
    by (simp add: deadline_in_range)
  then show "RandAddSeedPerfmon q current_time last_perfmon hasher =
        \<lparr>res_last_perfmon = last_perfmon, res_hasher = hasher, res_queries = []\<rparr>"
    by (simp add: RandAddSeedPerfmon_def)
next
  assume a: "sint last_perfmon + 600 \<le> sint t \<and> sint t + 660 \<le> 9223372036854775807"
  let ?r1 = "RandAddSeedPerfmon q t last_perfmon hasher"
  from a have "sint last_perfmon + 600 \<le> 9223372036854775807"
    by simp
  then have d0: "sint (last_perfmon + 600) = sint last_perfmon + 600"
    by (rule deadline_in_range)
  from a have d1: "sint (t + 600) = sint t + 600"
    by (intro deadline_in_range) simp
  from a have t5: "sint (t + 300) = sint t + 300"
    using sint_add_in_range [of 300 t] by simp
  from a have t11: "sint (t + 660) = sint t + 660"
    using sint_add_in_range [of 660 t] by simp
  have l: "res_last_perfmon ?r1 = t"
    using a d0 by (simp add: last_perfmon_after)
  show "collected ?r1"
    using a d0 by (simp add: collected_iff_due)
  show "\<not> collected (RandAddSeedPerfmon q' (t + 300) (res_last_perfmon ?r1) (res_hasher ?r1))"
    unfolding collected_iff_due l d1 t5 by simp
  have "sint (t + 300) < sint (t + 600)"
    unfolding d1 t5 by simp
  then show "res_hasher (RandAddSeedPerfmon q' (t + 300) (res_last_perfmon ?r1) (res_hasher ?r1)) =
        res_hasher ?r1"
    unfolding l by (simp add: RandAddSeedPerfmon_def [of q' "t + 300"])
  show "collected (RandAddSeedPerfmon q' (t + 660) (res_last_perfmon ?r1) (res_hasher ?r1))"
    unfolding collected_iff_due l d1 t11 by simp
qed

theorem perfmon_cooldown_witness:
  "RandAddSeedPerfmon ready_registry 900 1000 [] =
     \<lparr>res_last_perfmon = 1000, res_hasher = [], res_queries = []\<rparr> \<and>
   collected (RandAddSeedPerfmon ready_registry 1000 0 []) \<and>
   \<not> collected (RandAddSeedPerfmon ready_registry 1300
        (res_last_perfmon (RandAddSeedPerfmon ready_registry 1000 0 []))
        (res_hasher (RandAddSeedPerfmon ready_registry 1000 0 []))) \<and>
   collected (RandAddSeedPerfmon ready_registry 1660
        (res_last_perfmon (RandAddSeedPerfmon ready_registry 1000 0 []))
        (res_hasher (RandAddSeedPerfmon ready_registry 1000 0 [])))"
  using perfmon_cooldown [of 1000 900 ready_registry "[]" 1000 ready_registry]
    perfmon_cooldown [of 0 1000 ready_registry "[]" 1000 ready_registry]
  by simp

text \<open>
  The claim as stated has no condition on the first call. The static starts at 0
  seconds, so with a clock that reads 100 seconds and then 400 seconds (5 minutes
  apart) neither call collects: the collection runs zero times, not once.
\<close>

theorem perfmon_early_clock_counterexample:
  "RandAddSeedPerfmon ready_registry 100 0 [] =
     \<lparr>res_last_perfmon = 0, res_hasher = [], res_queries = []\<rparr> \<and>
   RandAddSeedPerfmon ready_registry 400 0 [] =
     \<lparr>res_last_perfmon = 0, res_hasher = [], res_queries = []\<rparr> \<and>
   \<not> collected (RandAddSeedPerfmon ready_registry 100 0 []) \<and>
   \<not> collected (RandAddSeedPerfmon ready_registry 400 0 [])"
  by (simp add: RandAddSeedPerfmon_def collected_def)

text \<open>
  Claim C3, as amended. As long as the stored time plus 600 seconds is within the range
  of the 64-bit counter, the stored time is set to the current time exactly when the
  call is due, whatever the query returns; a call that is not due leaves it unchanged.
\<close>

theorem last_perfmon_set_when_due:
  "sint last_perfmon + 600 \<le> 9223372036854775807 \<longrightarrow>
   res_last_perfmon (RandAddSeedPerfmon q current_time last_perfmon hasher) =
     (if sint current_time < sint last_perfmon + 600 then last_perfmon else current_time)"
  by (simp add: last_perfmon_after deadline_in_range)

theorem last_perfmon_set_when_due_witness:
  "res_last_perfmon (RandAddSeedPerfmon denied_registry 1000 0 []) = 1000 \<and>
   res_last_perfmon (RandAddSeedPerfmon ready_registry 1000 0 []) = 1000 \<and>
   res_last_perfmon (RandAddSeedPerfmon ready_registry 1300 1000 []) = 1000"
  using last_perfmon_set_when_due [of 0 denied_registry 1000 "[]"]
    last_perfmon_set_when_due [of 0 ready_registry 1000 "[]"]
    last_perfmon_set_when_due [of 1000 ready_registry 1300 "[]"]
  by simp

text \<open>
  The claim as stated leaves the stored time unchanged when the query fails. With a
  registry that answers every query with error code 5, a due call at 1000 seconds writes
  nothing to the accumulator and still stores 1000.
\<close>

theorem failed_query_updates_state_counterexample:
  "RandAddSeedPerfmon denied_registry 1000 0 [] =
     \<lparr>res_last_perfmon = 1000, res_hasher = [], res_queries = [250000]\<rparr> \<and>
   reg_ret (fst (perfmon_loop denied_registry 0 250000)) \<noteq> ERROR_SUCCESS"
  by (simp add: RandAddSeedPerfmon_def perfmon_loop_from_start denied_registry_def
      ERROR_MORE_DATA_def ERROR_SUCCESS_def)

text \<open>
  Claim C2, as amended. The loop starts with a buffer of 250000 bytes and always ends.
  A query is retried only after a reply of \<^verbatim>\<open>ERROR_MORE_DATA\<close> with a buffer below the cap
  of 10000000 bytes, each time with a strictly larger buffer that does not exceed the
  cap; the loop stops at the first reply that is not \<^verbatim>\<open>ERROR_MORE_DATA\<close> or when the
  buffer has reached the cap. When it stops with \<^verbatim>\<open>ERROR_MORE_DATA\<close> still reported, the
  data is dropped: nothing is written to the accumulator.
\<close>

theorem perfmon_loop_bounded:
  "(case perfmon_loop q 0 250000 of
      (r, sizes) \<Rightarrow>
        sizes \<noteq> [] \<and> hd sizes = 250000 \<and> sorted_wrt (<) sizes \<and>
        (\<forall>s \<in> set sizes. s \<le> nMaxSize) \<and>
        r = q (length sizes - 1) (last sizes) \<and>
        (\<forall>i < length sizes - 1. reg_ret (q i (sizes ! i)) = ERROR_MORE_DATA \<and> sizes ! i < nMaxSize) \<and>
        (reg_ret r \<noteq> ERROR_MORE_DATA \<or> last sizes \<ge> nMaxSize)) \<and>
   (sint last_perfmon + 600 \<le> sint current_time \<and>
    reg_ret (fst (perfmon_loop q 0 250000)) = ERROR_MORE_DATA \<longrightarrow>
      res_hasher (RandAddSeedPerfmon q current_time last_perfmon hasher) = hasher)"
  by (auto simp: perfmon_loop_from_start nMaxSize_def RandAddSeedPerfmon_def
      ERROR_MORE_DATA_def ERROR_SUCCESS_def split: prod.splits)

theorem perfmon_loop_bounded_witness:
  "perfmon_loop huge_registry 0 250000 = (huge_registry 1 10000000, [250000, 10000000]) \<and>
   res_hasher (RandAddSeedPerfmon huge_registry 1000 0 []) = []"
  using perfmon_loop_bounded [of huge_registry 0 1000 "[]"]
  by (simp add: perfmon_loop_from_start huge_registry_def ERROR_MORE_DATA_def)

text \<open>
  The claim as stated has the buffer grow by a factor through intermediate sizes, and
  has the truncated result accepted at the cap. With a registry that always reports
  \<^verbatim>\<open>ERROR_MORE_DATA\<close> the buffer sizes tried are 250000 and then 10000000 at once
  (\<^verbatim>\<open>std::max\<close> of the grown size and the cap), and nothing is written.
\<close>

theorem perfmon_no_intermediate_sizes_counterexample:
  "snd (perfmon_loop huge_registry 0 250000) = [250000, 10000000] \<and>
   reg_ret (fst (perfmon_loop huge_registry 0 250000)) = ERROR_MORE_DATA \<and>
   reg_nSize (fst (perfmon_loop huge_registry 0 250000)) = 20000000 \<and>
   res_hasher (RandAddSeedPerfmon huge_registry 1000 0 []) = []"
  by (simp add: perfmon_loop_from_start huge_registry_def ERROR_MORE_DATA_def
      ERROR_SUCCESS_def RandAddSeedPerfmon_def)

section \<open>The typed absorb operation: which arguments are rejected\<close>

lemma decay_pointer: "decay (Q c (Ptr pc t)) = Ptr pc t" "decay (Ref c (Ptr pc t)) = Ptr pc t"
  by (simp_all add: decay_def)

lemma decay_array:
  "decay (Q c (Array ec e n)) = Ptr (add_cv c ec) e"
  "decay (Ref c (Array ec e n)) = Ptr (add_cv c ec) e"
  by (simp_all add: decay_def)

text \<open>
  Claim C7, as amended. Every argument whose decayed type is \<^verbatim>\<open>char *\<close>, \<^verbatim>\<open>uint8_t *\<close>,
  \<^verbatim>\<open>const char *\<close> or \<^verbatim>\<open>const uint8_t *\<close> is rejected: pointers of these four types and
  arrays of \<^verbatim>\<open>char\<close> and \<^verbatim>\<open>uint8_t\<close>, const or not. The assertions also fail when such a
  pointer type is given as \<open>T\<close> with a qualifier of its own or as a reference, and for
  a const array of \<^verbatim>\<open>char\<close>. An argument that is accepted has its raw memory absorbed.
\<close>

theorem shift_in_rejects_byte_pointers:
  "(decay (Q Plain (type_of_value data)) \<in>
      {Ptr Plain Char, Ptr Plain UInt8, Ptr Const Char, Ptr Const UInt8} \<longrightarrow>
      shift_in hasher data = None) \<and>
   shift_in hasher (Ptr_val Plain Char address) = None \<and>
   shift_in hasher (Ptr_val Const Char address) = None \<and>
   shift_in hasher (Ptr_val Plain UInt8 address) = None \<and>
   shift_in hasher (Ptr_val Const UInt8 address) = None \<and>
   shift_in hasher (Char_array Plain bs) = None \<and>
   shift_in hasher (Char_array Const bs) = None \<and>
   shift_in hasher (UInt8_array Plain bs) = None \<and>
   shift_in hasher (UInt8_array Const bs) = None \<and>
   (T \<in> {Ptr Plain Char, Ptr Plain UInt8, Ptr Const Char, Ptr Const UInt8} \<longrightarrow>
      \<not> static_asserts (Q c T) \<and> \<not> static_asserts (Ref c T)) \<and>
   \<not> static_asserts (Q Const (Array Plain Char n)) \<and>
   (shift_in hasher data \<noteq> None \<longrightarrow>
      shift_in hasher data = Some (hasher @ [raw_memory data]))"
  by (auto simp: shift_in_def static_asserts_def decay_pointer decay_array Write_def)

theorem shift_in_rejects_byte_pointers_witness:
  "decay (Q Plain (type_of_value (Ptr_val Const Char 4096))) = Ptr Const Char \<and>
   shift_in [] (Ptr_val Const Char 4096) = None \<and>
   shift_in [] (Char_array Const [104, 105, 0]) = None \<and>
   decay (Ref Const (Ptr Const Char)) = Ptr Const Char \<and>
   \<not> static_asserts (Ref Const (Ptr Const Char)) \<and>
   shift_in [] (Int_val 5) = Some [Obj_int 5]"
  using shift_in_rejects_byte_pointers
      [of "Ptr_val Const Char 4096" "[]" 4096 "[104, 105, 0]" "Ptr Const Char" Const 6]
    shift_in_rejects_byte_pointers [of "Int_val 5" "[]" 0 "[]" "Ptr Const Char" Const 6]
  by (simp add: decay_def shift_in_def static_asserts_def Write_def)

text \<open>
  The claim as stated rejects every pointer-like argument whose address would be hashed
  instead of its contents. A \<^verbatim>\<open>void *\<close> and a \<^verbatim>\<open>struct stat *\<close> pass the four
  assertions, and what is absorbed for them is the address they hold.
\<close>

theorem shift_in_accepts_other_pointers_counterexample:
  "is_pointer (type_of_value (Ptr_val Plain Void 4096)) \<and>
   shift_in [] (Ptr_val Plain Void 4096) = Some [Obj_ptr 4096] \<and>
   is_pointer (type_of_value (Ptr_val Plain (Struct ''stat'') 8192)) \<and>
   shift_in [] (Ptr_val Plain (Struct ''stat'') 8192) = Some [Obj_ptr 8192]"
  by (simp add: shift_in_def static_asserts_def decay_def Write_def)

section \<open>AddFile: the bounded read\<close>

declare AddFile_loop.simps [simp del]

lemma posix_read_take:
  "posix_read rd k c = (n, fbuf) \<Longrightarrow> 0 < n \<Longrightarrow> take (nat n) fbuf = fbuf"
  by (auto simp: posix_read_def split: option.splits)

lemma posix_read_empty:
  "posix_read rd k c = (n, fbuf) \<Longrightarrow> \<not> 0 < n \<Longrightarrow> fbuf = []"
  by (auto simp: posix_read_def split: option.splits)

lemma posix_read_length: "length (snd (posix_read rd k c)) \<le> c"
  by (simp add: posix_read_def split: option.splits)

lemma posix_read_full_length:
  "fst (posix_read rd k c) = int c \<Longrightarrow> length (snd (posix_read rd k c)) = c"
  by (auto simp: posix_read_def split: option.splits)

lemma unat_total: "k \<le> 256 \<Longrightarrow> unat (of_nat (4096 * k) :: size_t) = 4096 * k"
proof -
  assume "k \<le> 256"
  then have "4096 * k < 2 ^ LENGTH(64)" by simp
  then show ?thesis by (simp only: unat_of_nat mod_less)
qed

lemma total_below_cap: "k \<le> 256 \<Longrightarrow> ((of_nat (4096 * k) :: size_t) < 1048576) = (k < 256)"
  using unat_total [of k] by (auto simp: word_less_nat_alt)

lemma AddFile_loop_full_step:
  assumes "fst (posix_read rd k 4096) = 4096" and "k < 256"
  shows "AddFile_loop rd k (of_nat (4096 * k)) hasher =
           (if Suc k < 256
            then AddFile_loop rd (Suc k) (of_nat (4096 * Suc k))
                   (hasher @ [Bytes (snd (posix_read rd k 4096))])
            else hasher @ [Bytes (snd (posix_read rd k 4096))])"
proof -
  obtain n fbuf where r: "posix_read rd k 4096 = (n, fbuf)"
    by (cases "posix_read rd k 4096")
  with assms have n: "n = 4096" by simp
  have t: "take (nat n) fbuf = fbuf"
    using posix_read_take [OF r] n by simp
  have w: "(of_nat (4096 * k) :: size_t) + word_of_int 4096 = of_nat (4096 * Suc k)"
    by simp
  have c: "((of_nat (4096 * Suc k) :: size_t) < 1048576) = (Suc k < 256)"
    using assms(2) by (intro total_below_cap) simp
  show ?thesis
    apply (subst AddFile_loop.simps)
    apply (simp only: r prod.case Let_def n w c)
    using t n apply (simp add: Write_def)
    done
qed

lemma AddFile_loop_short_step:
  assumes "fst (posix_read rd k 4096) \<noteq> 4096"
  shows "AddFile_loop rd k ftotal hasher =
           hasher @ (if snd (posix_read rd k 4096) = [] then []
                     else [Bytes (snd (posix_read rd k 4096))])"
proof -
  obtain n fbuf where r: "posix_read rd k 4096 = (n, fbuf)"
    by (cases "posix_read rd k 4096")
  with assms have n: "n \<noteq> 4096" by simp
  have "0 < n \<Longrightarrow> take (nat n) fbuf = fbuf \<and> fbuf \<noteq> []"
    using r by (auto simp: posix_read_def split: option.splits)
  moreover have "\<not> 0 < n \<Longrightarrow> fbuf = []"
    using posix_read_empty [OF r] by simp
  ultimately show ?thesis
    apply (subst AddFile_loop.simps)
    apply (simp only: r prod.case Let_def)
    using n apply (auto simp: Write_def)
    done
qed

lemma AddFile_loop_full_prefix:
  "\<forall>i < m. fst (posix_read rd (k + i) 4096) = 4096 \<Longrightarrow> k + m < 256 \<Longrightarrow>
   AddFile_loop rd k (of_nat (4096 * k)) hasher =
     AddFile_loop rd (k + m) (of_nat (4096 * (k + m)))
       (hasher @ map (\<lambda>i. Bytes (snd (posix_read rd i 4096))) [k..<k + m])"
proof (induction m arbitrary: k hasher)
  case 0
  then show ?case by simp
next
  case (Suc m)
  from Suc.prems have f: "fst (posix_read rd k 4096) = 4096"
    by (metis add.right_neutral zero_less_Suc)
  from Suc.prems have rest: "\<forall>i < m. fst (posix_read rd (Suc k + i) 4096) = 4096"
    by (metis Suc_less_eq add_Suc_shift)
  from Suc.prems have b: "Suc k + m < 256" "k < 256" "Suc k < 256"
    by simp_all
  have "AddFile_loop rd k (of_nat (4096 * k)) hasher =
          AddFile_loop rd (Suc k) (of_nat (4096 * Suc k))
            (hasher @ [Bytes (snd (posix_read rd k 4096))])"
    using AddFile_loop_full_step [OF f b(2)] b(3) by simp
  also have "\<dots> = AddFile_loop rd (Suc k + m) (of_nat (4096 * (Suc k + m)))
       ((hasher @ [Bytes (snd (posix_read rd k 4096))]) @
        map (\<lambda>i. Bytes (snd (posix_read rd i 4096))) [Suc k..<Suc k + m])"
    by (rule Suc.IH [OF rest b(1)])
  finally show ?case
    using upt_conv_Cons [of k "k + Suc m"] by (simp del: upt_Suc)
qed

lemma AddFile_loop_stops_short:
  assumes "\<forall>i < j. fst (posix_read rd i 4096) = 4096" and "j < 256"
    and "fst (posix_read rd j 4096) \<noteq> 4096"
  shows "AddFile_loop rd 0 0 hasher =
           hasher @ map (\<lambda>i. Bytes (snd (posix_read rd i 4096))) [0..<j] @
             (if snd (posix_read rd j 4096) = [] then []
              else [Bytes (snd (posix_read rd j 4096))])"
  using AddFile_loop_full_prefix [of j rd 0 hasher] assms
  by (simp add: AddFile_loop_short_step)

lemma AddFile_loop_stops_at_cap:
  assumes "\<forall>i < 256. fst (posix_read rd i 4096) = 4096"
  shows "AddFile_loop rd 0 0 hasher =
           hasher @ map (\<lambda>i. Bytes (snd (posix_read rd i 4096))) [0..<256]"
proof -
  have "AddFile_loop rd 0 0 hasher =
          AddFile_loop rd 255 (of_nat (4096 * 255))
            (hasher @ map (\<lambda>i. Bytes (snd (posix_read rd i 4096))) [0..<255])"
    using AddFile_loop_full_prefix [of 255 rd 0 hasher] assms by simp
  also have "\<dots> = (hasher @ map (\<lambda>i. Bytes (snd (posix_read rd i 4096))) [0..<255]) @
                    [Bytes (snd (posix_read rd 255 4096))]"
    using AddFile_loop_full_step [of rd 255] assms by simp
  also have "\<dots> = hasher @ map (\<lambda>i. Bytes (snd (posix_read rd i 4096))) ([0..<255] @ [255])"
    by simp
  also have "[0..<255] @ [255::nat] = [0..<256]"
    using upt_Suc_append [of 0 255] by simp
  finally show ?thesis .
qed


lemma length_concat_le:
  "\<forall>i < m. length (f i) \<le> c \<Longrightarrow> length (concat (map f [0..<m])) \<le> c * m"
proof (induction m)
  case 0
  then show ?case by simp
next
  case (Suc m)
  then have "length (concat (map f [0..<m])) \<le> c * m" and "length (f m) \<le> c"
    by simp_all
  then show ?case by simp
qed

lemma payload_chunks:
  "payload (map (\<lambda>i. Bytes (f i)) ks) = concat (map f ks)"
  by (induction ks) simp_all

lemma AddFile_loop_payload_bound:
  "length (payload (AddFile_loop rd 0 0 hasher)) \<le> length (payload hasher) + 1048576"
proof (cases "\<forall>i < 256. fst (posix_read rd i 4096) = 4096")
  case True
  have "length (concat (map (\<lambda>i. snd (posix_read rd i 4096)) [0..<256])) \<le> 4096 * 256"
    by (rule length_concat_le) (simp add: posix_read_length)
  then show ?thesis
    by (simp add: AddFile_loop_stops_at_cap [OF True] payload_append payload_chunks)
next
  case False
  define j where "j = (LEAST i. fst (posix_read rd i 4096) \<noteq> 4096)"
  from False obtain i0 where i0: "i0 < 256" "fst (posix_read rd i0 4096) \<noteq> 4096"
    by blast
  have short: "fst (posix_read rd j 4096) \<noteq> 4096"
    unfolding j_def using i0(2) by (rule LeastI)
  have "j \<le> i0"
    unfolding j_def using i0(2) by (rule Least_le)
  with i0(1) have j: "j < 256" by simp
  have full: "\<forall>i < j. fst (posix_read rd i 4096) = 4096"
    unfolding j_def using not_less_Least by blast
  have "length (concat (map (\<lambda>i. snd (posix_read rd i 4096)) [0..<j])) \<le> 4096 * j"
    by (rule length_concat_le) (simp add: posix_read_length)
  moreover have "length (snd (posix_read rd j 4096)) \<le> 4096"
    by (rule posix_read_length)
  ultimately show ?thesis
    using j by (simp add: AddFile_loop_stops_short [OF full j short] payload_append payload_chunks)
qed

lemma AddFile_payload:
  "open_fd (os path) \<noteq> - 1 \<Longrightarrow>
   \<exists>header. payload header = [] \<and>
     AddFile os [] path = AddFile_loop (reads (os path)) 0 0 header"
proof (cases "fstat_result (os path)")
  case None
  assume "open_fd (os path) \<noteq> - 1"
  with None have "payload [Obj_int (open_fd (os path))] = [] \<and>
      AddFile os [] path = AddFile_loop (reads (os path)) 0 0 [Obj_int (open_fd (os path))]"
    by (simp add: AddFile_def Let_def Write_def)
  then show ?thesis by blast
next
  case (Some sb)
  assume "open_fd (os path) \<noteq> - 1"
  with Some have "payload [Obj_int (open_fd (os path)), Obj_stat sb] = [] \<and>
      AddFile os [] path =
        AddFile_loop (reads (os path)) 0 0 [Obj_int (open_fd (os path)), Obj_stat sb]"
    by (simp add: AddFile_def Let_def Write_def)
  then show ?thesis by blast
qed

lemma concat_chunks_take:
  "concat (map (\<lambda>i. take c (drop (c * i) xs)) [0..<m]) = take (c * m) xs"
proof (induction m)
  case 0
  then show ?case by simp
next
  case (Suc m)
  have "take (c * m + c) xs = take (c * m) xs @ take c (drop (c * m) xs)"
    by (rule take_add)
  with Suc show ?case by (simp add: add.commute)
qed

lemma file_reads_chunk:
  "snd (posix_read (file_reads content) i 4096) = take 4096 (drop (4096 * i) content)"
  by (simp add: posix_read_def file_reads_def)

lemma file_reads_full:
  "4096 * Suc i \<le> length content \<Longrightarrow> fst (posix_read (file_reads content) i 4096) = 4096"
  by (simp add: posix_read_def file_reads_def)

text \<open>
  Claim C5. \<open>AddFile\<close> absorbs the content in chunks of 4096 bytes, one \<^verbatim>\<open>read\<close> each.
  It never absorbs more than 1048576 content bytes. The first \<^verbatim>\<open>read\<close> that does not
  fill the buffer (end of stream, a short read, or an error such as an interrupted call)
  is the last one: what it returned is absorbed and no further \<^verbatim>\<open>read\<close> is made. For a
  file of at least 5 MiB whose reads return full chunks, the content absorbed is exactly
  the first 1048576 bytes of the file.
\<close>

theorem AddFile_reads_at_most_1MiB:
  "length (payload (AddFile os [] path)) \<le> 1048576 \<and>
   (open_fd (os path) \<noteq> - 1 \<and> j < 256 \<and>
    (\<forall>i < j. fst (posix_read (reads (os path)) i 4096) = 4096) \<and>
    fst (posix_read (reads (os path)) j 4096) \<noteq> 4096 \<longrightarrow>
      payload (AddFile os [] path) =
        concat (map (\<lambda>i. snd (posix_read (reads (os path)) i 4096)) [0..<Suc j])) \<and>
   (open_fd (os path) \<noteq> - 1 \<and> reads (os path) = file_reads content \<and>
    5242880 \<le> length content \<longrightarrow>
      payload (AddFile os [] path) = take 1048576 content \<and>
      length (payload (AddFile os [] path)) = 1048576)"
proof (intro conjI impI)
  show "length (payload (AddFile os [] path)) \<le> 1048576"
  proof (cases "open_fd (os path) = - 1")
    case True
    then show ?thesis by (simp add: AddFile_def)
  next
    case False
    from AddFile_payload [of os path, OF False] obtain header where
      h: "payload header = []" "AddFile os [] path = AddFile_loop (reads (os path)) 0 0 header"
      by blast
    show ?thesis
      using AddFile_loop_payload_bound [of "reads (os path)" header] h by simp
  qed
next
  assume a: "open_fd (os path) \<noteq> - 1 \<and> j < 256 \<and>
    (\<forall>i < j. fst (posix_read (reads (os path)) i 4096) = 4096) \<and>
    fst (posix_read (reads (os path)) j 4096) \<noteq> 4096"
  from AddFile_payload [of os path] a obtain header where
    h: "payload header = []" "AddFile os [] path = AddFile_loop (reads (os path)) 0 0 header"
    by blast
  from a have full: "\<forall>i < j. fst (posix_read (reads (os path)) i 4096) = 4096"
    and j: "j < 256" and short: "fst (posix_read (reads (os path)) j 4096) \<noteq> 4096"
    by simp_all
  show "payload (AddFile os [] path) =
        concat (map (\<lambda>i. snd (posix_read (reads (os path)) i 4096)) [0..<Suc j])"
    using h by (simp add: AddFile_loop_stops_short [OF full j short] payload_append payload_chunks)
next
  assume a: "open_fd (os path) \<noteq> - 1 \<and> reads (os path) = file_reads content \<and>
    5242880 \<le> length content"
  from AddFile_payload [of os path] a obtain header where
    h: "payload header = []" "AddFile os [] path = AddFile_loop (file_reads content) 0 0 header"
    by auto
  have full: "\<forall>i < 256. fst (posix_read (file_reads content) i 4096) = 4096"
    using a by (auto intro: file_reads_full)
  have p: "payload (AddFile os [] path) = take (4096 * 256) content"
    using h
    by (simp only: AddFile_loop_stops_at_cap [OF full] payload_append payload_chunks
        file_reads_chunk concat_chunks_take append_Nil)
  then show "payload (AddFile os [] path) = take 1048576 content"
    by simp
  from p a show "length (payload (AddFile os [] path)) = 1048576"
    by simp
qed

theorem AddFile_reads_at_most_1MiB_witness:
  "length (payload (AddFile sample_fs [] ''/proc/zoneinfo'')) = 1048576 \<and>
   payload (AddFile sample_fs [] ''/etc/hosts'') = [1, 2, 3] \<and>
   length (payload (AddFile sample_fs [] ''/etc/passwd'')) \<le> 1048576"
  using AddFile_reads_at_most_1MiB [of sample_fs "''/proc/zoneinfo''" 0 "replicate 5242880 7"]
    AddFile_reads_at_most_1MiB [of sample_fs "''/etc/hosts''" 0 "[]"]
    AddFile_reads_at_most_1MiB [of sample_fs "''/etc/passwd''" 0 "[]"]
  by (simp add: sample_fs_def posix_read_def file_reads_def)

section \<open>AddAllCPUID: when the enumeration ends\<close>

lemma subleaf_loop_step:
  "subleaf_loop g leaf sub h =
     (if subleaf_stops g leaf sub then Some (fst (AddCPUID g h leaf sub))
      else subleaf_loop g leaf (sub + 1) (fst (AddCPUID g h leaf sub)))"
  by (subst subleaf_loop.simps) (auto simp: subleaf_stops_def AddCPUID_def split: prod.splits)

lemma word_succ_unat: "(w :: u32) < v \<Longrightarrow> unat (w + 1) = Suc (unat w)"
proof -
  assume "w < v"
  then have "w \<noteq> - 1"
    using word_order.extremum_strict by auto 
  then have "1 + w \<noteq> 0"
    by (metis add.commute add_eq_0_iff)
  then show ?thesis
    using unatSuc [of w] by (simp add: add.commute)
qed

lemma subleaf_loop_terminates:
  assumes "subleaf_stops g leaf s"
  shows "sub \<le> s \<Longrightarrow> subleaf_loop g leaf sub h \<noteq> None"
proof (induction "unat s - unat sub" arbitrary: sub h rule: less_induct)
  case less
  show ?case
  proof (cases "subleaf_stops g leaf sub")
    case True
    then show ?thesis by (subst subleaf_loop_step) simp
  next
    case False
    with assms have "sub \<noteq> s" by auto
    with less.prems have lt: "sub < s" by simp
    then have le: "sub + 1 \<le> s" by (rule inc_le)
    have u: "unat (sub + 1) = Suc (unat sub)" using lt by (rule word_succ_unat)
    have "unat sub < unat s" using lt by (simp add: word_less_nat_alt)
    with u have d: "unat s - unat (sub + 1) < unat s - unat sub" by simp
    from less.hyps [OF d le] False show ?thesis
      by (subst subleaf_loop_step) simp
  qed
qed

lemma subleaf_loop_Some_stops:
  "subleaf_loop g leaf sub h = Some y \<Longrightarrow> \<exists>s. subleaf_stops g leaf s"
proof (rule subleaf_loop.raw_induct
    [where P = "\<lambda>g leaf sub h y. \<exists>s. subleaf_stops g leaf s"])
  fix loop :: "cpuid \<Rightarrow> u32 \<Rightarrow> u32 \<Rightarrow> CSHA512 \<Rightarrow> CSHA512 option"
    and g leaf sub h y
  assume IH: "\<And>g leaf sub h y. loop g leaf sub h = Some y \<Longrightarrow> \<exists>s. subleaf_stops g leaf s"
    and body: "(case AddCPUID g h leaf sub of
      (hasher', ax, bx, cx, dx) \<Rightarrow>
        if leaf \<noteq> 4 \<and> leaf \<noteq> 11 \<and> leaf \<noteq> 13 then Some hasher'
        else if (leaf = 4 \<or> leaf = 13) \<and> ax = 0 then Some hasher'
             else if leaf = 11 \<and> cx AND 65280 = 0 then Some hasher'
                  else loop g leaf (sub + 1) hasher') = Some y"
  show "\<exists>s. subleaf_stops g leaf s"
  proof (cases "subleaf_stops g leaf sub")
    case True
    then show ?thesis by blast
  next
    case False
    with body have "loop g leaf (sub + 1) (fst (AddCPUID g h leaf sub)) = Some y"
      by (auto simp: subleaf_stops_def AddCPUID_def split: prod.splits if_splits)
    then show ?thesis by (rule IH)
  qed
qed

lemma leaf_loop_terminates:
  assumes "max_leaf \<noteq> - 1"
    and "\<forall>l. leaf0 \<le> l \<and> l \<le> max_leaf \<longrightarrow> (\<exists>s. subleaf_stops g l s)"
  shows "leaf0 \<le> leaf \<Longrightarrow> leaf_loop g max_leaf leaf h \<noteq> None"
proof (induction "Suc (unat max_leaf) - unat leaf" arbitrary: leaf h rule: less_induct)
  case less
  show ?case
  proof (cases "leaf \<le> max_leaf")
    case False
    then show ?thesis by (subst leaf_loop.simps) simp
  next
    case True
    with less.prems assms(2) obtain s where s: "subleaf_stops g leaf s" by blast
    have "subleaf_loop g leaf 0 h \<noteq> None"
      using s by (rule subleaf_loop_terminates) simp
    then obtain h1 where h1: "subleaf_loop g leaf 0 h = Some h1" by blast
    from assms(1) have "max_leaf < - 1"
      by (simp add: word_order.not_eq_extremum)
    with True have lt: "leaf < - 1"
      by simp
    then have u: "unat (leaf + 1) = Suc (unat leaf)" by (rule word_succ_unat)
    have "unat leaf \<le> unat max_leaf" using True by (simp add: word_le_nat_alt)
    with u have d: "Suc (unat max_leaf) - unat (leaf + 1) < Suc (unat max_leaf) - unat leaf"
      by simp
    have "unat leaf0 \<le> unat leaf" using less.prems by (simp add: word_le_nat_alt)
    with u have "leaf0 \<le> leaf + 1" by (simp add: word_le_nat_alt)
    from less.hyps [OF d this] have "leaf_loop g max_leaf (leaf + 1) h1 \<noteq> None" .
    with True h1 show ?thesis by (subst leaf_loop.simps) simp
  qed
qed

lemma leaf_loop_Some_stops:
  "leaf_loop g max_leaf leaf h = Some y \<Longrightarrow>
   max_leaf \<noteq> - 1 \<and> (\<forall>l. leaf \<le> l \<and> l \<le> max_leaf \<longrightarrow> (\<exists>s. subleaf_stops g l s))"
proof (rule leaf_loop.raw_induct
    [where P = "\<lambda>g max_leaf leaf h y. max_leaf \<noteq> - 1 \<and>
       (\<forall>l. leaf \<le> l \<and> l \<le> max_leaf \<longrightarrow> (\<exists>s. subleaf_stops g l s))"])
  fix loop :: "cpuid \<Rightarrow> u32 \<Rightarrow> u32 \<Rightarrow> CSHA512 \<Rightarrow> CSHA512 option"
    and g max_leaf leaf h y
  assume IH: "\<And>g max_leaf leaf h y. loop g max_leaf leaf h = Some y \<Longrightarrow>
      max_leaf \<noteq> - 1 \<and> (\<forall>l. leaf \<le> l \<and> l \<le> max_leaf \<longrightarrow> (\<exists>s. subleaf_stops g l s))"
    and body: "(if leaf \<le> max_leaf
      then Option.bind (subleaf_loop g leaf 0 h) (loop g max_leaf (leaf + 1))
      else Some h) = Some y"
  show "max_leaf \<noteq> - 1 \<and> (\<forall>l. leaf \<le> l \<and> l \<le> max_leaf \<longrightarrow> (\<exists>s. subleaf_stops g l s))"
  proof (cases "leaf \<le> max_leaf")
    case False
    then have "max_leaf \<noteq> - 1" by auto
    with False show ?thesis by auto
  next
    case True
    with body obtain h1 where h1: "subleaf_loop g leaf 0 h = Some h1"
      and r: "loop g max_leaf (leaf + 1) h1 = Some y"
      by (auto simp: bind_eq_Some_conv)
    from IH [OF r] have m: "max_leaf \<noteq> - 1"
      and rest: "\<forall>l. leaf + 1 \<le> l \<and> l \<le> max_leaf \<longrightarrow> (\<exists>s. subleaf_stops g l s)"
      by simp_all
    have here: "\<exists>s. subleaf_stops g leaf s"
      using h1 by (rule subleaf_loop_Some_stops)
    have "\<exists>s. subleaf_stops g l s" if "leaf \<le> l" "l \<le> max_leaf" for l
    proof (cases "l = leaf")
      case True
      with here show ?thesis by simp
    next
      case False
      with that(1) have "leaf < l" by simp
      then have "leaf + 1 \<le> l" by (rule inc_le)
      with rest that(2) show ?thesis by blast
    qed
    with m show ?thesis by blast
  qed
qed

lemma ext_loop_terminates:
  assumes "ext_max \<noteq> - 1"
  shows "ext_loop g ext_max leaf h \<noteq> None"
proof (induction "Suc (unat ext_max) - unat leaf" arbitrary: leaf h rule: less_induct)
  case less
  show ?case
  proof (cases "leaf \<le> ext_max")
    case False
    then show ?thesis by (subst ext_loop.simps) simp
  next
    case True
    from assms have "ext_max < - 1"
      by (simp add: word_order.not_eq_extremum)
    with True have lt: "leaf < - 1"
      by simp
    then have u: "unat (leaf + 1) = Suc (unat leaf)" by (rule word_succ_unat)
    have "unat leaf \<le> unat ext_max" using True by (simp add: word_le_nat_alt)
    with u have d: "Suc (unat ext_max) - unat (leaf + 1) < Suc (unat ext_max) - unat leaf"
      by simp
    from less.hyps [OF d] True show ?thesis by (subst ext_loop.simps) simp
  qed
qed

lemma ext_loop_Some_bound:
  "ext_loop g ext_max leaf h = Some y \<Longrightarrow> ext_max \<noteq> - 1"
proof (rule ext_loop.raw_induct [where P = "\<lambda>g ext_max leaf h y. ext_max \<noteq> - 1"])
  fix loop :: "cpuid \<Rightarrow> u32 \<Rightarrow> u32 \<Rightarrow> CSHA512 \<Rightarrow> CSHA512 option"
    and g ext_max leaf h y
  assume IH: "\<And>g ext_max leaf h y. loop g ext_max leaf h = Some y \<Longrightarrow> ext_max \<noteq> - 1"
    and body: "(if leaf \<le> ext_max
      then loop g ext_max (leaf + 1) (fst (AddCPUID g h leaf 0))
      else Some h) = Some y"
  show "ext_max \<noteq> - 1"
  proof (cases "leaf \<le> ext_max")
    case True
    with body have "loop g ext_max (leaf + 1) (fst (AddCPUID g h leaf 0)) = Some y"
      by simp
    then show ?thesis by (rule IH)
  next
    case False
    then show ?thesis by auto
  qed
qed


lemma other_leaf_stops: "leaf \<noteq> 4 \<Longrightarrow> leaf \<noteq> 11 \<Longrightarrow> leaf \<noteq> 13 \<Longrightarrow> subleaf_stops g leaf 0"
  by (simp add: subleaf_stops_def split: prod.splits)

lemma AddAllCPUID_unfold:
  "AddAllCPUID g h =
     Option.bind (leaf_loop g (fst (g 0 0)) 1 (fst (AddCPUID g h 0 0)))
       (\<lambda>h1. ext_loop g (fst (g 0x80000000 0)) 0x80000001 (fst (AddCPUID g h1 0x80000000 0)))"
proof -
  obtain a b c d where x: "g 0 0 = (a, b, c, d)"
    by (metis prod_cases4)
  obtain a' b' c' d' where y: "g 0x80000000 0 = (a', b', c', d')"
    by (metis prod_cases4)
  show ?thesis
    by (simp add: AddAllCPUID_def AddCPUID_def x y)
qed

lemma AddAllCPUID_Some_only_if:
  assumes "AddAllCPUID g h = Some y"
  shows "fst (g 0 0) \<noteq> - 1 \<and> fst (g 0x80000000 0) \<noteq> - 1 \<and>
         (\<forall>l. 1 \<le> l \<and> l \<le> fst (g 0 0) \<longrightarrow> (\<exists>s. subleaf_stops g l s))"
proof -
  from assms obtain h1 where
    a: "leaf_loop g (fst (g 0 0)) 1 (fst (AddCPUID g h 0 0)) = Some h1" and
    b: "ext_loop g (fst (g 0x80000000 0)) 0x80000001 (fst (AddCPUID g h1 0x80000000 0)) = Some y"
    by (auto simp: AddAllCPUID_unfold bind_eq_Some_conv)
  from leaf_loop_Some_stops [OF a] ext_loop_Some_bound [OF b] show ?thesis
    by simp
qed

lemma AddAllCPUID_Some_if:
  assumes "fst (g 0 0) \<noteq> - 1" and "fst (g 0x80000000 0) \<noteq> - 1"
    and "\<forall>l. 1 \<le> l \<and> l \<le> fst (g 0 0) \<longrightarrow> (\<exists>s. subleaf_stops g l s)"
  shows "AddAllCPUID g h \<noteq> None"
proof -
  have "leaf_loop g (fst (g 0 0)) 1 (fst (AddCPUID g h 0 0)) \<noteq> None"
    using assms(1,3) by (rule leaf_loop_terminates) simp
  then obtain h1 where a: "leaf_loop g (fst (g 0 0)) 1 (fst (AddCPUID g h 0 0)) = Some h1"
    by blast
  have "ext_loop g (fst (g 0x80000000 0)) 0x80000001 (fst (AddCPUID g h1 0x80000000 0)) \<noteq> None"
    using assms(2) by (rule ext_loop_terminates)
  with a show ?thesis
    by (simp add: AddAllCPUID_unfold)
qed

lemma visited_leaves:
  "(\<forall>l. 1 \<le> l \<and> l \<le> m \<longrightarrow> (\<exists>s. subleaf_stops g l s)) =
   (\<forall>leaf \<in> {4, 11, 13}. leaf \<le> m \<longrightarrow> (\<exists>subleaf. subleaf_stops g leaf subleaf))"
proof
  assume "\<forall>l. 1 \<le> l \<and> l \<le> m \<longrightarrow> (\<exists>s. subleaf_stops g l s)"
  moreover have "(1 :: u32) \<le> 4" "(1 :: u32) \<le> 11" "(1 :: u32) \<le> 13" by simp_all
  ultimately show "\<forall>leaf \<in> {4, 11, 13}. leaf \<le> m \<longrightarrow> (\<exists>subleaf. subleaf_stops g leaf subleaf)"
    by blast
next
  assume r: "\<forall>leaf \<in> {4, 11, 13}. leaf \<le> m \<longrightarrow> (\<exists>subleaf. subleaf_stops g leaf subleaf)"
  show "\<forall>l. 1 \<le> l \<and> l \<le> m \<longrightarrow> (\<exists>s. subleaf_stops g l s)"
  proof (intro allI impI)
    fix l :: u32
    assume l: "1 \<le> l \<and> l \<le> m"
    show "\<exists>s. subleaf_stops g l s"
    proof (cases "l = 4 \<or> l = 11 \<or> l = 13")
      case True
      with r l show ?thesis by blast
    next
      case False
      then have "subleaf_stops g l 0" by (simp add: other_leaf_stops)
      then show ?thesis ..
    qed
  qed
qed

text \<open>
  Claim C4, as amended. \<open>AddAllCPUID\<close> ends exactly when the maximum standard leaf and
  the maximum extended leaf that the processor reports are below \<open>0xFFFFFFFF\<close> and,
  for each of the leaves 4, 11 and 13 that lies within the standard range, some sub-leaf
  meets the leaf's stop condition (\<open>ax = 0\<close> for leaves 4 and 13, bits 8 to 15 of
  \<open>cx\<close> zero for leaf 11). There is no maximum sub-leaf count.
\<close>

theorem AddAllCPUID_terminates_iff:
  "(AddAllCPUID GetCPUID hasher \<noteq> None) =
     (fst (GetCPUID 0 0) \<noteq> 0xFFFFFFFF \<and> fst (GetCPUID 0x80000000 0) \<noteq> 0xFFFFFFFF \<and>
      (\<forall>leaf \<in> {4, 11, 13}. leaf \<le> fst (GetCPUID 0 0) \<longrightarrow>
         (\<exists>subleaf. subleaf_stops GetCPUID leaf subleaf)))"
proof -
  have m: "(0xFFFFFFFF :: u32) = - 1" by simp
  show ?thesis
    unfolding m visited_leaves [symmetric]
    using AddAllCPUID_Some_only_if [of GetCPUID hasher] AddAllCPUID_Some_if [of GetCPUID hasher]
    by blast
qed

theorem AddAllCPUID_terminates_iff_witness:
  "subleaf_stops sample_cpuid 4 3 \<and> subleaf_stops sample_cpuid 11 2 \<and>
   subleaf_stops sample_cpuid 13 2 \<and> fst (sample_cpuid 0 0) = 13 \<and>
   fst (sample_cpuid 0x80000000 0) = 0x80000004 \<and>
   AddAllCPUID sample_cpuid [] \<noteq> None"
proof -
  have s: "subleaf_stops sample_cpuid 4 3" "subleaf_stops sample_cpuid 11 2"
    "subleaf_stops sample_cpuid 13 2"
    by (simp_all add: subleaf_stops_def sample_cpuid_def)
  have f: "fst (sample_cpuid 0 0) = 13" "fst (sample_cpuid 0x80000000 0) = 0x80000004"
    by (simp_all add: sample_cpuid_def)
  have "\<forall>leaf \<in> {4, 11, 13}. leaf \<le> fst (sample_cpuid 0 0) \<longrightarrow>
          (\<exists>subleaf. subleaf_stops sample_cpuid leaf subleaf)"
    using s by blast
  with f have "AddAllCPUID sample_cpuid [] \<noteq> None"
    using AddAllCPUID_terminates_iff [of sample_cpuid "[]"] by simp
  with s f show ?thesis by simp
qed

text \<open>
  The claim as stated has the enumeration end for every sequence of responses. With a
  processor that reports 11 as its maximum leaf and a nonzero level type in \<open>cx\<close> for
  every sub-leaf of leaf 11, the sub-leaf loop never ends.
\<close>

theorem AddAllCPUID_endless_counterexample:
  "fst (endless_cpuid 0 0) = 11 \<and> AddAllCPUID endless_cpuid [] = None"
proof -
  have n: "\<not> subleaf_stops endless_cpuid 11 s" for s
    by (simp add: subleaf_stops_def endless_cpuid_def)
  have f: "fst (endless_cpuid 0 0) = 11"
    by (simp add: endless_cpuid_def)
  have "AddAllCPUID endless_cpuid [] = None"
  proof (rule ccontr)
    assume "AddAllCPUID endless_cpuid [] \<noteq> None"
    then obtain y where "AddAllCPUID endless_cpuid [] = Some y" by blast
    from AddAllCPUID_Some_only_if [OF this] f
    have "\<exists>s. subleaf_stops endless_cpuid 11 s" by simp
    with n show False by blast
  qed
  with f show ?thesis by simp
qed

end
